theory Spec2Isabelle
  imports Complex_Main
begin

section \<open>Data model\<close>

text \<open>
  The enumerations of \<^verbatim>\<open>utils/enums.py\<close>. Both enumerations of the source have a member
  \<^verbatim>\<open>UNAVAILABLE\<close>; the member of \<^verbatim>\<open>ResponseStatus\<close> is written \<open>RESP_UNAVAILABLE\<close> here.
\<close>

datatype ResponseStatus = OK | TIMEOUT | DNS_ERROR | RESP_UNAVAILABLE

datatype SiteStatus = UNAVAILABLE | AVAILABLE

text \<open>
  \<^verbatim>\<open>task_manager/models.py\<close>: the result of one request and the notification that is sent
  to the observers. Times are whole seconds since the epoch; a latency is a rational number
  standing for the float of the source.
\<close>

record ResponseData =
  rd_url :: string
  rd_status :: ResponseStatus
  rd_timestamp :: int
  rd_code :: "int option"
  rd_response_time :: "rat option"

datatype Notification = Notification string SiteStatus

text \<open>
  \<^verbatim>\<open>db/models.py\<close>: the documents of the collections \<^verbatim>\<open>sites\<close>, \<^verbatim>\<open>monitors\<close> and
  \<^verbatim>\<open>checks\<close>. The identifier \<^verbatim>\<open>_id\<close> that the store generates is left out; no function
  modelled here reads it.
\<close>

record Site =
  site_url :: string
  site_status :: SiteStatus
  consecutive_failures :: int

record Monitor =
  user_id :: int
  mon_url :: string
  interval :: int

record Check =
  ck_url :: string
  ck_status :: ResponseStatus
  ck_timestamp :: int
  ck_code :: "int option"
  ck_response_time :: "rat option"

text \<open>
  The store behind \<^verbatim>\<open>DBHandler\<close>. A collection is the list of its documents in insertion
  order. Every method of \<^verbatim>\<open>DBHandler\<close> is wrapped by \<^verbatim>\<open>ExceptionHandlingMeta\<close>
  (\<^verbatim>\<open>utils/meta.py\<close>): an exception of the driver is logged and the method returns
  \<^verbatim>\<open>None\<close>. The flag \<open>up\<close> says whether the store answers; when it does not, a method
  changes nothing and returns \<open>None\<close>.
\<close>

record DB =
  up :: bool
  sites :: "Site list"
  monitors :: "Monitor list"
  check_records :: "Check list"

datatype exn = ObserverError | AttributeError | TypeError | NameError

section \<open>The store (\<^verbatim>\<open>db/db_handler.py\<close>)\<close>

text \<open>\<^verbatim>\<open>find_one({"url": url})\<close>: the first document of the collection with this URL.\<close>

definition get_site :: "DB \<Rightarrow> string \<Rightarrow> Site option" where
  "get_site d u = (if up d then find (\<lambda>s. site_url s = u) (sites d) else None)"

text \<open>\<^verbatim>\<open>update_one(filter, {"$set": ...})\<close> changes the first document that matches, if any.\<close>

fun update_one :: "('a \<Rightarrow> bool) \<Rightarrow> ('a \<Rightarrow> 'a) \<Rightarrow> 'a list \<Rightarrow> 'a list" where
  "update_one P f [] = []"
| "update_one P f (x # xs) = (if P x then f x # xs else x # update_one P f xs)"

definition update_site :: "DB \<Rightarrow> string \<Rightarrow> SiteStatus \<Rightarrow> int \<Rightarrow> DB" where
  "update_site d u s n =
     (if up d
      then d\<lparr>sites := update_one (\<lambda>x. site_url x = u)
                         (\<lambda>x. x\<lparr>site_status := s, consecutive_failures := n\<rparr>) (sites d)\<rparr>
      else d)"

text \<open>
  \<^verbatim>\<open>add_site\<close> returns the identifier of the new document as a non-empty string, which the
  caller only tests for truth; the model returns the store after the insertion, and
  \<open>None\<close> when the insertion failed.
\<close>

definition add_site :: "DB \<Rightarrow> string \<Rightarrow> SiteStatus \<Rightarrow> DB option" where
  "add_site d u s =
     (if up d
      then Some (d\<lparr>sites := sites d @ [\<lparr>site_url = u, site_status = s, consecutive_failures = 0\<rparr>]\<rparr>)
      else None)"

section \<open>The status manager (\<^verbatim>\<open>task_manager/service_status_manager.py\<close>)\<close>

text \<open>
  An observer is an object with a method \<^verbatim>\<open>notify\<close>; it is identified by a number, and
  the parameter \<open>raises\<close> of the functions below says for which notifications its
  \<^verbatim>\<open>notify\<close> raises instead of returning. The manager holds the store and the list of
  observers. Three traces record what it does: \<open>published\<close> has every notification
  handed to \<^verbatim>\<open>_notify_observers\<close>, \<open>called\<close> every call of an observer's \<^verbatim>\<open>notify\<close>
  (also the call that raised), and \<open>processed\<close> every result handed to
  \<^verbatim>\<open>process_check_result\<close>.
\<close>

type_synonym Observer = nat

record Manager =
  db :: DB
  observers :: "Observer list"
  published :: "Notification list"
  called :: "(Observer \<times> Notification) list"
  processed :: "ResponseData list"

definition subscribe :: "Manager \<Rightarrow> Observer \<Rightarrow> Manager" where
  "subscribe m ob = m\<lparr>observers := observers m @ [ob]\<rparr>"

definition unsubscribe :: "Manager \<Rightarrow> Observer \<Rightarrow> Manager" where
  "unsubscribe m ob = (if ob \<in> set (observers m) then m\<lparr>observers := remove1 ob (observers m)\<rparr> else m)"

text \<open>
  The loop of \<^verbatim>\<open>_notify_observers\<close> over the observers that are left. It has no handler:
  an exception of \<^verbatim>\<open>observer.notify\<close> leaves the loop and the method.
\<close>

fun notify_loop ::
  "(Observer \<Rightarrow> Notification \<Rightarrow> bool) \<Rightarrow> Observer list \<Rightarrow> Notification \<Rightarrow>
     (Observer \<times> Notification) list \<Rightarrow> exn option \<times> (Observer \<times> Notification) list" where
  "notify_loop raises [] n cs = (None, cs)"
| "notify_loop raises (ob # obs) n cs =
     (if raises ob n then (Some ObserverError, cs @ [(ob, n)])
      else notify_loop raises obs n (cs @ [(ob, n)]))"

definition notify_observers ::
  "(Observer \<Rightarrow> Notification \<Rightarrow> bool) \<Rightarrow> Manager \<Rightarrow> Notification \<Rightarrow> exn option \<times> Manager" where
  "notify_observers raises m n =
     (case notify_loop raises (observers m) n (called m) of
        (r, cs) \<Rightarrow> (r, m\<lparr>published := published m @ [n], called := cs\<rparr>))"

text \<open>
  Lines 66 to 85 of \<^verbatim>\<open>process_check_result\<close>, on the site that was read. The second
  \<^verbatim>\<open>get_site\<close> of the source may return \<^verbatim>\<open>None\<close>; reading \<^verbatim>\<open>site.status\<close> then raises
  \<^verbatim>\<open>AttributeError\<close>. \<open>k\<close> is \<^verbatim>\<open>FAILURE_THRESHOLD\<close>.
\<close>

definition update_status ::
  "int \<Rightarrow> (Observer \<Rightarrow> Notification \<Rightarrow> bool) \<Rightarrow> Manager \<Rightarrow> ResponseData \<Rightarrow> Site option \<Rightarrow>
     exn option \<times> Manager" where
  "update_status k raises m check_info site_opt =
     (case site_opt of
        None \<Rightarrow> (Some AttributeError, m)
      | Some site \<Rightarrow>
          (let current_status = site_status site;
               failures = consecutive_failures site
           in if rd_status check_info = OK
              then (if current_status = UNAVAILABLE \<or> failures > 0
                    then notify_observers raises
                           (m\<lparr>db := update_site (db m) (rd_url check_info) AVAILABLE 0\<rparr>)
                           (Notification (rd_url check_info) AVAILABLE)
                    else (None, m))
              else (let failures = failures + 1;
                        new_status = (if failures \<ge> k then UNAVAILABLE else current_status);
                        m' = m\<lparr>db := update_site (db m) (rd_url check_info) new_status failures\<rparr>
                    in if current_status = AVAILABLE \<and> new_status = UNAVAILABLE
                       then notify_observers raises m' (Notification (rd_url check_info) UNAVAILABLE)
                       else (None, m'))))"

definition process_check_result ::
  "int \<Rightarrow> (Observer \<Rightarrow> Notification \<Rightarrow> bool) \<Rightarrow> Manager \<Rightarrow> ResponseData \<Rightarrow> exn option \<times> Manager" where
  "process_check_result k raises m0 check_info =
     (let m = m0\<lparr>processed := processed m0 @ [check_info]\<rparr>
      in case get_site (db m) (rd_url check_info) of
           Some site \<Rightarrow> update_status k raises m check_info (Some site)
         | None \<Rightarrow>
             (case add_site (db m) (rd_url check_info) AVAILABLE of
                None \<Rightarrow> (None, m)
              | Some d \<Rightarrow> update_status k raises (m\<lparr>db := d\<rparr>) check_info
                            (get_site d (rd_url check_info))))"

text \<open>
  \<^verbatim>\<open>add_check_record\<close> appends the document to \<^verbatim>\<open>checks\<close>; as for \<^verbatim>\<open>add_site\<close> the
  result is the store after the insertion, or \<open>None\<close> when the insertion failed.
\<close>

definition add_check_record :: "DB \<Rightarrow> Check \<Rightarrow> DB option" where
  "add_check_record d c = (if up d then Some (d\<lparr>check_records := check_records d @ [c]\<rparr>) else None)"

text \<open>
  \<^verbatim>\<open>get_monitors_urls_for_tick\<close> asks the store for the distinct URLs of the monitors
  that satisfy the JavaScript condition \<^verbatim>\<open>(seconds % this.interval) == 0\<close>. The remainder
  of JavaScript has the sign of the dividend, and a remainder by zero is \<^verbatim>\<open>NaN\<close>, which
  is not equal to \<^verbatim>\<open>0\<close>; \<open>None\<close> stands for \<^verbatim>\<open>NaN\<close>. The order in which the store
  lists the distinct values is not fixed by the source.
\<close>

definition js_rem :: "int \<Rightarrow> int \<Rightarrow> int option" where
  "js_rem a b = (if b = 0 then None else Some (sgn a * (\<bar>a\<bar> mod \<bar>b\<bar>)))"

definition get_monitors_urls_for_tick :: "DB \<Rightarrow> int \<Rightarrow> string list option" where
  "get_monitors_urls_for_tick d seconds =
     (if up d
      then Some (remdups (map mon_url
                   (filter (\<lambda>m. js_rem seconds (interval m) = Some 0) (monitors d))))
      else None)"

section \<open>The request (\<^verbatim>\<open>task_manager/http_requestor.py\<close>)\<close>

text \<open>
  What \<^verbatim>\<open>self._client.get(url, follow_redirects=True)\<close> does: it returns the final
  response, of which the status code and the time that passed are kept, or it raises.
  \<open>OtherError\<close> is any exception but \<^verbatim>\<open>ConnectError\<close> and \<^verbatim>\<open>ConnectTimeout\<close>.
\<close>

datatype get_outcome = Response int rat | ConnectError | ConnectTimeout | OtherError

text \<open>
  \<^verbatim>\<open>make_request\<close>. The class has the metaclass \<^verbatim>\<open>ExceptionHandlingMeta\<close>, so an exception
  that the method does not handle is logged and the method returns \<^verbatim>\<open>None\<close>. The
  parameter \<open>raise_for_status\<close> says for which status codes the method of that name of
  the HTTP library raises \<^verbatim>\<open>HTTPStatusError\<close>; \<open>now\<close> is \<^verbatim>\<open>int(time.time())\<close>.
\<close>

definition make_request ::
  "(int \<Rightarrow> bool) \<Rightarrow> (string \<Rightarrow> get_outcome) \<Rightarrow> int \<Rightarrow> string \<Rightarrow> ResponseData option" where
  "make_request raise_for_status client_get now u =
     (case client_get u of
        ConnectError \<Rightarrow>
          Some \<lparr>rd_url = u, rd_status = DNS_ERROR, rd_timestamp = now,
                rd_code = None, rd_response_time = None\<rparr>
      | ConnectTimeout \<Rightarrow>
          Some \<lparr>rd_url = u, rd_status = TIMEOUT, rd_timestamp = now,
                rd_code = None, rd_response_time = None\<rparr>
      | OtherError \<Rightarrow> None
      | Response status_code response_time \<Rightarrow>
          (if raise_for_status status_code
           then Some \<lparr>rd_url = u, rd_status = RESP_UNAVAILABLE, rd_timestamp = now,
                      rd_code = Some status_code, rd_response_time = None\<rparr>
           else Some \<lparr>rd_url = u, rd_status = OK, rd_timestamp = now,
                      rd_code = Some status_code, rd_response_time = Some response_time\<rparr>))"

text \<open>
  The HTTP library is httpx, which is not part of the repository. Its
  \<^verbatim>\<open>Response.raise_for_status\<close> returns for a status code from 200 to 299
  (\<^verbatim>\<open>is_success\<close>) and raises \<^verbatim>\<open>HTTPStatusError\<close> for every other one.
\<close>

definition httpx_raise_for_status :: "int \<Rightarrow> bool" where
  "httpx_raise_for_status status_code = (\<not> (200 \<le> status_code \<and> status_code \<le> 299))"

section \<open>The task manager (\<^verbatim>\<open>task_manager/manager.py\<close>)\<close>

text \<open>\<^verbatim>\<open>ResponseData.prepare_for_database\<close>: a code or a latency that is not true is left out.\<close>

definition prepare_for_database :: "ResponseData \<Rightarrow> Check" where
  "prepare_for_database r =
     \<lparr>ck_url = rd_url r, ck_status = rd_status r, ck_timestamp = rd_timestamp r,
      ck_code = (case rd_code r of None \<Rightarrow> None | Some c \<Rightarrow> if c \<noteq> 0 then Some c else None),
      ck_response_time =
        (case rd_response_time r of None \<Rightarrow> None | Some t \<Rightarrow> if t \<noteq> 0 then Some t else None)\<rparr>"

text \<open>The loop \<^verbatim>\<open>while None in responses_data\<close>, which pops the first \<^verbatim>\<open>None\<close>.\<close>

function pop_nones :: "'a option list \<Rightarrow> 'a option list" where
  "pop_nones xs = (if None \<in> set xs then pop_nones (remove1 None xs) else xs)"
  by pat_completeness auto
termination
proof (relation "measure length")
  show "wf (measure length)" by simp
next
  fix xs :: "'a option list"
  assume "None \<in> set xs"
  then have "0 < length xs" by (rule length_pos_if_in_set)
  then show "(remove1 None xs, xs) \<in> measure length"
    using \<open>None \<in> set xs\<close> by (simp add: length_remove1)
qed

declare pop_nones.simps [simp del]

text \<open>
  \<^verbatim>\<open>asyncio.gather\<close> over the calls of \<^verbatim>\<open>process_check_result\<close>: every call runs, also
  when an earlier one raised, and the first exception is the one that \<^verbatim>\<open>gather\<close>
  raises. The calls are taken one after the other in the order of the list.
\<close>

fun process_all ::
  "int \<Rightarrow> (Observer \<Rightarrow> Notification \<Rightarrow> bool) \<Rightarrow> Manager \<Rightarrow> ResponseData list \<Rightarrow>
     exn option \<times> Manager" where
  "process_all k raises m [] = (None, m)"
| "process_all k raises m (x # xs) =
     (case process_check_result k raises m x of
        (r, m') \<Rightarrow>
          (case process_all k raises m' xs of
             (r', m'') \<Rightarrow> ((case r of None \<Rightarrow> r' | Some e \<Rightarrow> Some e), m'')))"

definition run_task ::
  "int \<Rightarrow> (Observer \<Rightarrow> Notification \<Rightarrow> bool) \<Rightarrow> (string \<Rightarrow> ResponseData option) \<Rightarrow>
     Manager \<Rightarrow> string list \<Rightarrow> exn option \<times> Manager" where
  "run_task k raises request m urls =
     (let responses_data = [data. Some data \<leftarrow> pop_nones (map request urls)];
          d = fold (\<lambda>data d. case add_check_record d (prepare_for_database data) of
                                None \<Rightarrow> d | Some d' \<Rightarrow> d')
                responses_data (db m)
      in process_all k raises (m\<lparr>db := d\<rparr>) responses_data)"

section \<open>The scheduler (\<^verbatim>\<open>scheduler/scheduler.py\<close>)\<close>

record Scheduler =
  ticks :: int

definition Scheduler_init :: Scheduler where
  "Scheduler_init = \<lparr>ticks = 0\<rparr>"

text \<open>\<open>TICK_DURATION\<close> is the constant of that name of \<^verbatim>\<open>constants.py\<close>.\<close>

definition urls_per_tick :: "int \<Rightarrow> DB \<Rightarrow> Scheduler \<Rightarrow> Scheduler \<times> string list" where
  "urls_per_tick TICK_DURATION d s =
     (let s' = s\<lparr>ticks := ticks s + 1\<rparr>
      in case get_monitors_urls_for_tick d (ticks s' * TICK_DURATION) of
           None \<Rightarrow> (s', [])
         | Some urls \<Rightarrow> (s', urls))"

definition tick ::
  "int \<Rightarrow> int \<Rightarrow> (Observer \<Rightarrow> Notification \<Rightarrow> bool) \<Rightarrow> (string \<Rightarrow> ResponseData option) \<Rightarrow>
     Scheduler \<times> Manager \<Rightarrow> exn option \<times> Scheduler \<times> Manager" where
  "tick TICK_DURATION k raises request sm =
     (case sm of (s, m) \<Rightarrow>
        (case urls_per_tick TICK_DURATION (db m) s of
           (s', urls) \<Rightarrow>
             (case run_task k raises request m urls of (r, m') \<Rightarrow> (r, s', m'))))"

section \<open>The report generator (\<^verbatim>\<open>reporting/report_generator.py\<close>)\<close>

text \<open>
  The time of a check is a \<^verbatim>\<open>datetime\<close> in the source; here it is the number of whole
  seconds on one time line, so that \<^verbatim>\<open>int((b - a).total_seconds())\<close> is \<open>b - a\<close>.
\<close>

definition is_check_successful :: "Check \<Rightarrow> bool" where
  "is_check_successful check = (ck_status check = OK)"

text \<open>The decimal form of an integer, as an f-string prints it.\<close>

fun str_nat :: "nat \<Rightarrow> string" where
  "str_nat n =
     (if n < 10 then [char_of (48 + n)] else str_nat (n div 10) @ [char_of (48 + n mod 10)])"

declare str_nat.simps [simp del]

definition str_int :: "int \<Rightarrow> string" where
  "str_int i = (if i < 0 then CHR ''-'' # str_nat (nat (- i)) else str_nat (nat i))"

definition get_failure_reason :: "Check \<Rightarrow> string" where
  "get_failure_reason check =
     (case ck_status check of
        RESP_UNAVAILABLE \<Rightarrow>
          ''HTTP '' @ (case ck_code check of None \<Rightarrow> ''None'' | Some c \<Rightarrow> str_int c)
      | DNS_ERROR \<Rightarrow> ''Connection Error''
      | TIMEOUT \<Rightarrow> ''Timeout''
      | OK \<Rightarrow> ''Unknown Error'')"

record Incident =
  start_time :: "int option"
  end_time :: "int option"
  duration :: int
  reason :: string

text \<open>The local variables of \<^verbatim>\<open>_find_incidents\<close> that the loop changes.\<close>

record Scan =
  incidents :: "Incident list"
  current_incident :: "Incident option"
  failures_counter :: int
  incident_start :: "int option"

definition Scan_init :: Scan where
  "Scan_init = \<lparr>incidents = [], current_incident = None, failures_counter = 0,
                incident_start = None\<rparr>"

text \<open>
  Closing an incident at a time: the difference of the end and the start. A start that
  is \<^verbatim>\<open>None\<close> makes the subtraction raise \<^verbatim>\<open>TypeError\<close>.
\<close>

definition close_incident :: "Incident \<Rightarrow> int \<Rightarrow> exn + Incident" where
  "close_incident inc t =
     (case start_time inc of
        None \<Rightarrow> Inl TypeError
      | Some s \<Rightarrow> Inr (inc\<lparr>end_time := Some t, duration := t - s\<rparr>))"

text \<open>The body of the loop of \<^verbatim>\<open>_find_incidents\<close>; \<open>k\<close> is \<^verbatim>\<open>FAILURE_THRESHOLD\<close>.\<close>

definition scan_step :: "int \<Rightarrow> Scan \<Rightarrow> Check \<Rightarrow> exn + Scan" where
  "scan_step k st check =
     (let is_successful = is_check_successful check;
          st1 = (if \<not> is_successful
                 then st\<lparr>incident_start :=
                           (if failures_counter st = 0 then Some (ck_timestamp check)
                            else incident_start st),
                         failures_counter := failures_counter st + 1\<rparr>
                 else st\<lparr>failures_counter := 0\<rparr>)
      in if failures_counter st1 \<ge> k \<and> current_incident st1 = None
         then Inr (st1\<lparr>current_incident :=
                        Some \<lparr>start_time = incident_start st1, end_time = None, duration = 0,
                              reason = get_failure_reason check\<rparr>\<rparr>)
         else (case current_incident st1 of
                 Some inc \<Rightarrow>
                   (if is_successful
                    then (case close_incident inc (ck_timestamp check) of
                            Inl e \<Rightarrow> Inl e
                          | Inr inc' \<Rightarrow>
                              Inr (st1\<lparr>incidents := incidents st1 @ [inc'],
                                       current_incident := None\<rparr>))
                    else Inr st1)
               | None \<Rightarrow> Inr st1))"

fun scan_loop :: "int \<Rightarrow> Scan \<Rightarrow> Check list \<Rightarrow> exn + Scan" where
  "scan_loop k st [] = Inr st"
| "scan_loop k st (check # rest) =
     (case scan_step k st check of Inl e \<Rightarrow> Inl e | Inr st' \<Rightarrow> scan_loop k st' rest)"

text \<open>
  The statements of \<^verbatim>\<open>_find_incidents\<close> after the loop: an incident that is still open
  is closed at the time of \<^verbatim>\<open>check\<close>, the variable of the loop, which then is the last
  check of the sorted list and is unbound when the list is empty.
\<close>

definition after_loop :: "Check list \<Rightarrow> Scan \<Rightarrow> exn + Incident list" where
  "after_loop sorted_checks st =
     (case current_incident st of
        None \<Rightarrow> Inr (incidents st)
      | Some inc \<Rightarrow>
          (if sorted_checks = [] then Inl NameError
           else (case close_incident inc (ck_timestamp (last sorted_checks)) of
                   Inl e \<Rightarrow> Inl e
                 | Inr inc' \<Rightarrow> Inr (incidents st @ [inc']))))"

text \<open>\<^verbatim>\<open>_find_incidents\<close>. \<^verbatim>\<open>sorted\<close> is stable, as \<open>sort_key\<close> is.\<close>

definition find_incidents :: "int \<Rightarrow> Check list \<Rightarrow> exn + Incident list" where
  "find_incidents k checks =
     (let sorted_checks = sort_key ck_timestamp checks
      in case scan_loop k Scan_init sorted_checks of
           Inl e \<Rightarrow> Inl e
         | Inr st \<Rightarrow> after_loop sorted_checks st)"



text \<open>
  \<^verbatim>\<open>round(x, 2)\<close> on rational numbers: the nearest multiple of one hundredth, a tie going
  to the even one. The floats of the source are taken as the rational numbers they stand
  for.
\<close>

definition py_round2 :: "rat \<Rightarrow> rat" where
  "py_round2 x =
     (let y = x * 100; f = \<lfloor>y\<rfloor>; d = y - of_int f;
          n = (if d < 1 / 2 then f else if d > 1 / 2 then f + 1
               else if even f then f else f + 1)
      in of_int n / 100)"





section \<open>The incidents as the specification describes them\<close>

text \<open>
  The reading of the specification, for a history in the order of time: the history is cut
  into its maximal runs of failed checks. A run of at least \<open>k\<close> failures is one incident.
  It starts at the time of the first failure of the run; it ends at the time of the
  successful check that follows the run, or at the time of the last check of the history
  when no successful check follows. Its reason is that of the failure that reached the
  threshold.
\<close>

function spec_incidents :: "int \<Rightarrow> Check list \<Rightarrow> Incident list" where
  "spec_incidents k cs =
     (case dropWhile is_check_successful cs of
        [] \<Rightarrow> []
      | f # fs \<Rightarrow>
          (let run = f # takeWhile (\<lambda>c. \<not> is_check_successful c) fs;
               after = dropWhile (\<lambda>c. \<not> is_check_successful c) fs;
               finish = (case after of [] \<Rightarrow> ck_timestamp (last run) | c # _ \<Rightarrow> ck_timestamp c)
           in (if int (length run) \<ge> k
               then [\<lparr>start_time = Some (ck_timestamp f), end_time = Some finish,
                      duration = finish - ck_timestamp f,
                      reason = get_failure_reason (run ! (nat k - 1))\<rparr>]
               else [])
              @ spec_incidents k after))"
  by pat_completeness auto
termination
proof (relation "measure (\<lambda>(k, cs). length cs)")
  show "wf (measure (\<lambda>(k, cs). length cs))" by simp
next
  fix k :: int and cs :: "Check list" and f fs run after
  assume rest: "dropWhile is_check_successful cs = f # fs"
    and after: "after = dropWhile (\<lambda>c. \<not> is_check_successful c) fs"
  have "length after \<le> length fs"
    unfolding after by (rule length_dropWhile_le)
  also have "length fs < length (dropWhile is_check_successful cs)"
    by (simp add: rest)
  also have "\<dots> \<le> length cs"
    by (rule length_dropWhile_le)
  finally show "((k, after), (k, cs)) \<in> measure (\<lambda>(k, cs). length cs)"
    by simp
qed

declare spec_incidents.simps [simp del]

section \<open>Example inputs\<close>

text \<open>Observers of which none raises, and observers of which the one numbered 0 raises.\<close>

definition never_raises :: "Observer \<Rightarrow> Notification \<Rightarrow> bool" where
  "never_raises ob n = False"

definition first_raises :: "Observer \<Rightarrow> Notification \<Rightarrow> bool" where
  "first_raises ob n = (ob = 0)"

text \<open>A store that answers and knows the site \<^verbatim>\<open>a\<close> with the given state.\<close>

definition store_a :: "SiteStatus \<Rightarrow> int \<Rightarrow> DB" where
  "store_a s f =
     \<lparr>up = True, sites = [\<lparr>site_url = ''a'', site_status = s, consecutive_failures = f\<rparr>],
      monitors = [], check_records = []\<rparr>"

definition manager_a :: "SiteStatus \<Rightarrow> int \<Rightarrow> Observer list \<Rightarrow> Manager" where
  "manager_a s f obs =
     \<lparr>db = store_a s f, observers = obs, published = [], called = [], processed = []\<rparr>"

definition result_a :: "ResponseStatus \<Rightarrow> int \<Rightarrow> ResponseData" where
  "result_a s t =
     \<lparr>rd_url = ''a'', rd_status = s, rd_timestamp = t,
      rd_code = (if s = OK then Some 200 else None),
      rd_response_time = (if s = OK then Some 1 else None)\<rparr>"

text \<open>A client for which the final response of every request has the status 304.\<close>

definition final_304 :: "string \<Rightarrow> get_outcome" where
  "final_304 u = Response 304 (1 / 4)"

text \<open>
  A client for which the request to \<^verbatim>\<open>a\<close> raises an exception that \<^verbatim>\<open>make_request\<close> does
  not handle, and every other request is answered with the status 200.
\<close>

definition half_down :: "string \<Rightarrow> get_outcome" where
  "half_down u = (if u = ''a'' then OtherError else Response 200 (1 / 2))"

text \<open>A status test that raises for the codes from 400 on.\<close>

definition raise_from_400 :: "int \<Rightarrow> bool" where
  "raise_from_400 status_code = (400 \<le> status_code)"

text \<open>A store with one monitor, of \<^verbatim>\<open>a\<close>, with the interval of 30 seconds.\<close>

definition store_30 :: DB where
  "store_30 = \<lparr>up = True, sites = [],
      monitors = [\<lparr>user_id = 1, mon_url = ''a'', interval = 30\<rparr>], check_records = []\<rparr>"

text \<open>A check of \<^verbatim>\<open>a\<close> with the given status and time.\<close>

definition check_at :: "ResponseStatus \<Rightarrow> int \<Rightarrow> Check" where
  "check_at s t = \<lparr>ck_url = ''a'', ck_status = s, ck_timestamp = t, ck_code = None,
                   ck_response_time = (if s = OK then Some (1 / 2) else None)\<rparr>"


section \<open>The store: reading after writing\<close>

lemma find_update_one_same:
  "(\<And>x. P (f x) = P x) \<Longrightarrow> find P (update_one P f xs) = map_option f (find P xs)"
  by (induction xs) auto

lemma find_update_one_other:
  "(\<And>x. Q (f x) = Q x) \<Longrightarrow> (\<And>x. Q x \<Longrightarrow> \<not> P x) \<Longrightarrow> find Q (update_one P f xs) = find Q xs"
  by (induction xs) auto

lemma get_site_update_site_same:
  "up d \<Longrightarrow> get_site (update_site d u s n) u =
     map_option (\<lambda>x. x\<lparr>site_status := s, consecutive_failures := n\<rparr>) (get_site d u)"
  by (simp add: get_site_def update_site_def find_update_one_same)

lemma get_site_update_site_other:
  "v \<noteq> u \<Longrightarrow> get_site (update_site d u s n) v = get_site d v"
proof -
  assume ne: "v \<noteq> u"
  have "find (\<lambda>x. site_url x = v)
          (update_one (\<lambda>x. site_url x = u)
             (\<lambda>x. x\<lparr>site_status := s, consecutive_failures := n\<rparr>) xs)
        = find (\<lambda>x. site_url x = v) xs" for xs :: "Site list"
    by (rule find_update_one_other) (use ne in auto)
  then show ?thesis
    by (simp add: get_site_def update_site_def)
qed

lemma published_notify_observers:
  "published (snd (notify_observers raises m n)) = published m @ [n]"
  by (simp add: notify_observers_def split: prod.splits)

lemma db_notify_observers:
  "db (snd (notify_observers raises m n)) = db m"
  by (simp add: notify_observers_def split: prod.splits)

lemma process_existing:
  "get_site (db m) (rd_url ci) = Some site \<Longrightarrow>
   process_check_result k raises m ci =
     update_status k raises (m\<lparr>processed := processed m @ [ci]\<rparr>) ci (Some site)"
  by (simp add: process_check_result_def Let_def)

section \<open>The status machine\<close>

text \<open>
  C1. The claim says that a notification is sent exactly when the stored status of the
  site changes, and that some failures below the threshold followed by a success send
  none. The code sends one: with the threshold 3 and the site \<^verbatim>\<open>a\<close> at (AVAILABLE, 0), two
  failed results and then a successful one leave the site AVAILABLE with no failures, and
  the successful result publishes the notification (a, AVAILABLE), although the status
  never changed.
\<close>

theorem recovery_notification_without_status_change:
  "published (snd (process_all 3 never_raises (manager_a AVAILABLE 0 [])
       [result_a TIMEOUT 1, result_a TIMEOUT 2, result_a OK 3]))
     = [Notification ''a'' AVAILABLE]
   \<and> published (snd (process_all 3 never_raises (manager_a AVAILABLE 0 [])
       [result_a TIMEOUT 1, result_a TIMEOUT 2])) = []
   \<and> get_site (db (snd (process_all 3 never_raises (manager_a AVAILABLE 0 [])
       [result_a TIMEOUT 1, result_a TIMEOUT 2]))) ''a''
     = Some \<lparr>site_url = ''a'', site_status = AVAILABLE, consecutive_failures = 2\<rparr>
   \<and> get_site (db (snd (process_all 3 never_raises (manager_a AVAILABLE 0 [])
       [result_a TIMEOUT 1, result_a TIMEOUT 2, result_a OK 3]))) ''a''
     = Some \<lparr>site_url = ''a'', site_status = AVAILABLE, consecutive_failures = 0\<rparr>"
  by (simp add: process_check_result_def update_status_def get_site_def update_site_def
      notify_observers_def manager_a_def store_a_def result_a_def never_raises_def Let_def)

text \<open>
  C2. A result that is not OK, for a site that the store knows with the state
  (status, failures): the store then holds (UNAVAILABLE, failures + 1) for the site when
  failures + 1 reaches the threshold and (status, failures + 1) otherwise, the other sites
  are as before, and the notification (url, UNAVAILABLE) is published exactly when the
  status was AVAILABLE and the new one is UNAVAILABLE.
\<close>

theorem non_ok_result_persists_and_notifies_on_edge:
  assumes "up (db m)" and "get_site (db m) (rd_url ci) = Some site" and "rd_status ci \<noteq> OK"
  shows "let m' = snd (process_check_result k raises m ci);
             failures' = consecutive_failures site + 1;
             new_status = (if failures' \<ge> k then UNAVAILABLE else site_status site)
         in get_site (db m') (rd_url ci)
              = Some (site\<lparr>site_status := new_status, consecutive_failures := failures'\<rparr>)
          \<and> (\<forall>v. v \<noteq> rd_url ci \<longrightarrow> get_site (db m') v = get_site (db m) v)
          \<and> published m' = published m @
              (if site_status site = AVAILABLE \<and> new_status = UNAVAILABLE
               then [Notification (rd_url ci) UNAVAILABLE] else [])"
  using assms
  by (auto simp add: process_existing update_status_def Let_def published_notify_observers
      db_notify_observers get_site_update_site_same get_site_update_site_other)

theorem non_ok_result_witness:
  "up (db (manager_a AVAILABLE 2 [0]))
   \<and> get_site (db (manager_a AVAILABLE 2 [0])) (rd_url (result_a TIMEOUT 7))
       = Some \<lparr>site_url = ''a'', site_status = AVAILABLE, consecutive_failures = 2\<rparr>
   \<and> rd_status (result_a TIMEOUT 7) \<noteq> OK
   \<and> get_site (db (snd (process_check_result 3 never_raises (manager_a AVAILABLE 2 [0])
         (result_a TIMEOUT 7)))) ''a''
       = Some \<lparr>site_url = ''a'', site_status = UNAVAILABLE, consecutive_failures = 3\<rparr>
   \<and> published (snd (process_check_result 3 never_raises (manager_a AVAILABLE 2 [0])
         (result_a TIMEOUT 7)))
       = [Notification ''a'' UNAVAILABLE]"
  using non_ok_result_persists_and_notifies_on_edge
    [of "manager_a AVAILABLE 2 [0]" "result_a TIMEOUT 7"
        "\<lparr>site_url = ''a'', site_status = AVAILABLE, consecutive_failures = 2\<rparr>"
        3 never_raises]
  by (simp add: get_site_def manager_a_def store_a_def result_a_def Let_def)

text \<open>
  C3. A result that is OK, for a site that the store knows with the state
  (status, failures): when failures is positive or the status is UNAVAILABLE, the store
  then holds (AVAILABLE, 0) for the site, the other sites are as before, and exactly one
  notification, (url, AVAILABLE), is published, whatever failures was; otherwise the store
  is unchanged and nothing is published.
\<close>

theorem ok_result_recovers_or_is_noop:
  assumes "up (db m)" and "get_site (db m) (rd_url ci) = Some site" and "rd_status ci = OK"
  shows "let m' = snd (process_check_result k raises m ci)
         in if consecutive_failures site > 0 \<or> site_status site = UNAVAILABLE
            then get_site (db m') (rd_url ci)
                   = Some (site\<lparr>site_status := AVAILABLE, consecutive_failures := 0\<rparr>)
               \<and> (\<forall>v. v \<noteq> rd_url ci \<longrightarrow> get_site (db m') v = get_site (db m) v)
               \<and> published m' = published m @ [Notification (rd_url ci) AVAILABLE]
            else db m' = db m \<and> published m' = published m"
  using assms
  by (auto simp add: process_existing update_status_def Let_def published_notify_observers
      db_notify_observers get_site_update_site_same get_site_update_site_other)

theorem ok_result_witness:
  "up (db (manager_a UNAVAILABLE 40 [0]))
   \<and> get_site (db (manager_a UNAVAILABLE 40 [0])) (rd_url (result_a OK 7))
       = Some \<lparr>site_url = ''a'', site_status = UNAVAILABLE, consecutive_failures = 40\<rparr>
   \<and> rd_status (result_a OK 7) = OK
   \<and> get_site (db (snd (process_check_result 3 never_raises (manager_a UNAVAILABLE 40 [0])
         (result_a OK 7)))) ''a''
       = Some \<lparr>site_url = ''a'', site_status = AVAILABLE, consecutive_failures = 0\<rparr>
   \<and> published (snd (process_check_result 3 never_raises (manager_a UNAVAILABLE 40 [0])
         (result_a OK 7)))
       = [Notification ''a'' AVAILABLE]"
  using ok_result_recovers_or_is_noop
    [of "manager_a UNAVAILABLE 40 [0]" "result_a OK 7"
        "\<lparr>site_url = ''a'', site_status = UNAVAILABLE, consecutive_failures = 40\<rparr>"
        3 never_raises]
  by (simp add: get_site_def manager_a_def store_a_def result_a_def Let_def)

lemma notify_loop_eq:
  "notify_loop raises obs n cs =
     (if \<exists>ob \<in> set obs. raises ob n then Some ObserverError else None,
      cs @ map (\<lambda>ob. (ob, n))
             (takeWhile (\<lambda>ob. \<not> raises ob n) obs @ take 1 (dropWhile (\<lambda>ob. \<not> raises ob n) obs)))"
  by (induction obs arbitrary: cs) auto

text \<open>
  C4. The claim says that an observer that raises does not keep the notification from
  the other observers and that nothing is raised to the publisher. The loop of
  \<^verbatim>\<open>_notify_observers\<close> has no handler. What holds: the observers are called in the
  order in which they subscribed; when none raises, each is called once and the publisher
  gets no exception; when one raises, the observers before it and the raising one have
  been called, the observers after it are not called, and the exception reaches the
  publisher.
\<close>

theorem delivery_stops_at_first_raising_observer:
  "fst (notify_observers raises m n)
     = (if \<exists>ob \<in> set (observers m). raises ob n then Some ObserverError else None)
   \<and> called (snd (notify_observers raises m n))
     = called m @ map (\<lambda>ob. (ob, n))
         (takeWhile (\<lambda>ob. \<not> raises ob n) (observers m)
          @ take 1 (dropWhile (\<lambda>ob. \<not> raises ob n) (observers m)))"
  by (simp add: notify_observers_def notify_loop_eq)

theorem delivery_witness:
  "fst (notify_observers never_raises (manager_a AVAILABLE 0 [0, 1]) (Notification ''a'' UNAVAILABLE)) = None
   \<and> called (snd (notify_observers never_raises (manager_a AVAILABLE 0 [0, 1]) (Notification ''a'' UNAVAILABLE)))
      = [(0, Notification ''a'' UNAVAILABLE), (1, Notification ''a'' UNAVAILABLE)]"
  using delivery_stops_at_first_raising_observer
    [of never_raises "manager_a AVAILABLE 0 [0, 1]" "Notification ''a'' UNAVAILABLE"]
  by (simp add: never_raises_def manager_a_def)

theorem raising_observer_blocks_later_observers:
  "fst (notify_observers first_raises (manager_a AVAILABLE 0 [0, 1]) (Notification ''a'' UNAVAILABLE))
     = Some ObserverError
   \<and> called (snd (notify_observers first_raises (manager_a AVAILABLE 0 [0, 1]) (Notification ''a'' UNAVAILABLE)))
     = [(0, Notification ''a'' UNAVAILABLE)]"
  by (simp add: notify_observers_def first_raises_def manager_a_def)

section \<open>The scheduler\<close>

lemma js_rem_zero: "js_rem a b = Some 0 \<longleftrightarrow> b \<noteq> 0 \<and> a mod b = 0"
proof (cases "b = 0")
  case True then show ?thesis by (simp add: js_rem_def)
next
  case False
  have "sgn a * (\<bar>a\<bar> mod \<bar>b\<bar>) = 0 \<longleftrightarrow> \<bar>a\<bar> mod \<bar>b\<bar> = 0"
    by (cases "a = 0") (auto simp: sgn_if)
  also have "\<dots> \<longleftrightarrow> \<bar>b\<bar> dvd \<bar>a\<bar>" by (simp add: dvd_eq_mod_eq_0)
  also have "\<dots> \<longleftrightarrow> b dvd a" by simp
  also have "\<dots> \<longleftrightarrow> a mod b = 0" by (simp add: dvd_eq_mod_eq_0)
  finally show ?thesis using False by (simp add: js_rem_def)
qed

text \<open>
  C6. The counter of the scheduler is 0 before the first tick and every tick adds 1 to it
  before the store is asked, so that the first tick asks with 1. When the store answers,
  the list of the tick numbered t has no URL twice and holds exactly the URLs of the
  monitors whose interval I is not 0 and satisfies (t * TICK_DURATION) mod I = 0 (for the
  interval 0 the remainder of the query is not a number and the monitor is never due);
  when the store does not answer, the list is empty. With TICK_DURATION = 10 and one
  monitor of interval 30, the monitor is due exactly on the ticks that 3 divides.
\<close>

theorem tick_counter_and_due_set:
  "ticks Scheduler_init = 0
   \<and> ticks (fst (urls_per_tick TICK_DURATION d s)) = ticks s + 1
   \<and> (up d \<longrightarrow>
        distinct (snd (urls_per_tick TICK_DURATION d s))
      \<and> set (snd (urls_per_tick TICK_DURATION d s))
          = mon_url ` {m \<in> set (monitors d).
                        interval m \<noteq> 0 \<and> ((ticks s + 1) * TICK_DURATION) mod interval m = 0})
   \<and> (\<not> up d \<longrightarrow> snd (urls_per_tick TICK_DURATION d s) = [])
   \<and> (\<forall>t. snd (urls_per_tick 10 store_30 \<lparr>ticks = t - 1\<rparr>)
            = (if t mod 3 = 0 then [''a''] else []))"
proof -
  have ex: "snd (urls_per_tick 10 store_30 \<lparr>ticks = t - 1\<rparr>)
            = (if t mod 3 = 0 then [''a''] else [])" for t :: int
  proof -
    have "(t * 10) mod 30 = 0 \<longleftrightarrow> t mod 3 = 0" by presburger
    then show ?thesis
      by (simp add: urls_per_tick_def get_monitors_urls_for_tick_def store_30_def js_rem_zero Let_def)
  qed
  have init: "ticks Scheduler_init = 0"
    by (simp add: Scheduler_init_def)
  have step: "ticks (fst (urls_per_tick TICK_DURATION d s)) = ticks s + 1"
    by (simp add: urls_per_tick_def get_monitors_urls_for_tick_def Let_def)
  have due: "up d \<longrightarrow>
        distinct (snd (urls_per_tick TICK_DURATION d s))
      \<and> set (snd (urls_per_tick TICK_DURATION d s))
          = mon_url ` {m \<in> set (monitors d).
                        interval m \<noteq> 0 \<and> ((ticks s + 1) * TICK_DURATION) mod interval m = 0}"
    by (auto simp add: urls_per_tick_def get_monitors_urls_for_tick_def js_rem_zero Let_def)
  have down: "\<not> up d \<longrightarrow> snd (urls_per_tick TICK_DURATION d s) = []"
    by (simp add: urls_per_tick_def get_monitors_urls_for_tick_def Let_def)
  from init step due down ex show ?thesis
    by blast
qed

theorem tick_counter_and_due_set_witness:
  "ticks (fst (urls_per_tick 10 store_30 Scheduler_init)) = 1
   \<and> up store_30
   \<and> snd (urls_per_tick 10 store_30 \<lparr>ticks = 2\<rparr>) = [''a'']
   \<and> snd (urls_per_tick 10 store_30 \<lparr>ticks = 3\<rparr>) = []
   \<and> snd (urls_per_tick 10 store_30 \<lparr>ticks = 0\<rparr>) = []"
  using tick_counter_and_due_set [of 10 store_30 Scheduler_init]
    tick_counter_and_due_set [of 10 store_30 "\<lparr>ticks = 2\<rparr>"]
  by (simp add: Scheduler_init_def store_30_def urls_per_tick_def get_monitors_urls_for_tick_def
      js_rem_def Let_def)

section \<open>The request\<close>

text \<open>
  C7. The claim says that a final response with a status from 200 to 399 gives OK. With
  \<^verbatim>\<open>raise_for_status\<close> of httpx the request returns, for every URL: OK with the code and
  the latency for a final status from 200 to 299; UNAVAILABLE with the code for every
  other final status; DNS_ERROR for \<^verbatim>\<open>ConnectError\<close>; TIMEOUT for \<^verbatim>\<open>ConnectTimeout\<close>; and
  \<^verbatim>\<open>None\<close>, without raising, for any other exception.
\<close>

theorem make_request_classification:
  "(case client_get u of
      Response status_code t \<Rightarrow>
        make_request httpx_raise_for_status client_get now u
          = Some \<lparr>rd_url = u,
                  rd_status = (if 200 \<le> status_code \<and> status_code \<le> 299 then OK
                               else RESP_UNAVAILABLE),
                  rd_timestamp = now, rd_code = Some status_code,
                  rd_response_time =
                    (if 200 \<le> status_code \<and> status_code \<le> 299 then Some t else None)\<rparr>
    | ConnectError \<Rightarrow>
        make_request httpx_raise_for_status client_get now u
          = Some \<lparr>rd_url = u, rd_status = DNS_ERROR, rd_timestamp = now, rd_code = None,
                  rd_response_time = None\<rparr>
    | ConnectTimeout \<Rightarrow>
        make_request httpx_raise_for_status client_get now u
          = Some \<lparr>rd_url = u, rd_status = TIMEOUT, rd_timestamp = now, rd_code = None,
                  rd_response_time = None\<rparr>
    | OtherError \<Rightarrow> make_request httpx_raise_for_status client_get now u = None)"
  by (simp add: make_request_def httpx_raise_for_status_def split: get_outcome.splits)

theorem final_3xx_response_is_not_ok:
  "make_request httpx_raise_for_status final_304 5 ''a''
     = Some \<lparr>rd_url = ''a'', rd_status = RESP_UNAVAILABLE, rd_timestamp = 5,
             rd_code = Some 304, rd_response_time = None\<rparr>"
  by (simp add: make_request_def httpx_raise_for_status_def final_304_def)

theorem make_request_classification_witness:
  "make_request httpx_raise_for_status half_down 9 ''b''
     = Some \<lparr>rd_url = ''b'', rd_status = OK, rd_timestamp = 9, rd_code = Some 200,
             rd_response_time = Some (1 / 2)\<rparr>
   \<and> make_request httpx_raise_for_status half_down 9 ''a'' = None"
  using make_request_classification [where client_get = half_down and u = "''b''" and now = 9]
    make_request_classification [where client_get = half_down and u = "''a''" and now = 9]
  by (simp add: half_down_def)

section \<open>The task manager\<close>

lemma pop_nones_filter: "pop_nones xs = filter (\<lambda>x. x \<noteq> None) xs"
proof (induction xs rule: pop_nones.induct)
  case (1 xs)
  show ?case
  proof (cases "None \<in> set xs")
    case True
    have "filter (\<lambda>x. x \<noteq> None) (remove1 None ys) = filter (\<lambda>x. x \<noteq> None) ys"
      for ys :: "'a option list"
      by (induction ys) auto
    with True "1.IH" show ?thesis
      by (subst pop_nones.simps) simp
  next
    case False
    have "x \<noteq> None" if "x \<in> set xs" for x
      using that False by metis
    then have "\<forall>x \<in> set xs. x \<noteq> None" ..
    then have "filter (\<lambda>x. x \<noteq> None) xs = xs"
      by (simp only: filter_id_conv)
    with False show ?thesis
      by (subst pop_nones.simps) simp
  qed
qed

lemma somes_pop_nones:
  "[data. Some data \<leftarrow> pop_nones xs] = [data. Some data \<leftarrow> xs]"
  unfolding pop_nones_filter by (induction xs) (auto split: option.splits)

lemma make_request_url: "make_request rfs client now u = Some data \<Longrightarrow> rd_url data = u"
  by (auto simp: make_request_def split: get_outcome.splits if_splits)

lemma set_somes:
  "set [data. Some data \<leftarrow> map f urls] = {data. \<exists>u \<in> set urls. f u = Some data}"
  by (induction urls) (auto split: option.splits)

lemma rd_url_somes:
  "rd_url ` set [data. Some data \<leftarrow> map (make_request rfs client now) urls]
     = {u \<in> set urls. make_request rfs client now u \<noteq> None}"
proof
  show "rd_url ` set [data. Some data \<leftarrow> map (make_request rfs client now) urls]
          \<subseteq> {u \<in> set urls. make_request rfs client now u \<noteq> None}"
    unfolding set_somes using make_request_url by fastforce
next
  show "{u \<in> set urls. make_request rfs client now u \<noteq> None}
          \<subseteq> rd_url ` set [data. Some data \<leftarrow> map (make_request rfs client now) urls]"
  proof
    fix u
    assume "u \<in> {u \<in> set urls. make_request rfs client now u \<noteq> None}"
    then obtain data where u: "u \<in> set urls" and d: "make_request rfs client now u = Some data"
      by blast
    from d have "rd_url data = u" by (rule make_request_url)
    moreover from u d
    have "data \<in> set [data. Some data \<leftarrow> map (make_request rfs client now) urls]"
      unfolding set_somes by blast
    ultimately show "u \<in> rd_url ` set [data. Some data \<leftarrow> map (make_request rfs client now) urls]"
      by blast
  qed
qed

lemma fold_add_check_record:
  "up d \<Longrightarrow>
   fold (\<lambda>data d. case add_check_record d (prepare_for_database data) of
                     None \<Rightarrow> d | Some d' \<Rightarrow> d') datas d
     = d\<lparr>check_records := check_records d @ map prepare_for_database datas\<rparr>"
  by (induction datas arbitrary: d) (auto simp: add_check_record_def)

lemma notify_observers_fields:
  "db (snd (notify_observers raises m n)) = db m"
  "processed (snd (notify_observers raises m n)) = processed m"
  by (simp_all add: notify_observers_def split: prod.splits)

lemma update_site_fields:
  "up (update_site d u s n) = up d"
  "check_records (update_site d u s n) = check_records d"
  by (simp_all add: update_site_def)

lemma update_status_fields:
  "up (db (snd (update_status k raises m ci so))) = up (db m)"
  "check_records (db (snd (update_status k raises m ci so))) = check_records (db m)"
  "processed (snd (update_status k raises m ci so)) = processed m"
  by (auto simp: update_status_def Let_def notify_observers_fields update_site_fields
      split: option.splits)

lemma update_status_other_site:
  "v \<noteq> rd_url ci \<Longrightarrow> get_site (db (snd (update_status k raises m ci so))) v = get_site (db m) v"
  by (auto simp: update_status_def Let_def notify_observers_fields get_site_update_site_other
      split: option.splits)

lemma find_append_no_match:
  "\<not> P y \<Longrightarrow> find P (xs @ [y]) = find P xs"
  by (induction xs) auto

lemma snd_process_all_Cons:
  "snd (process_all k raises m (x # xs))
     = snd (process_all k raises (snd (process_check_result k raises m x)) xs)"
  by (simp split: prod.splits)

lemma get_site_add_site_other:
  "add_site d u s = Some d' \<Longrightarrow> v \<noteq> u \<Longrightarrow> get_site d' v = get_site d v"
  by (auto simp: add_site_def get_site_def find_append_no_match split: if_splits)

lemma add_site_fields:
  "add_site d u s = Some d' \<Longrightarrow> up d' = up d \<and> check_records d' = check_records d"
  by (auto simp: add_site_def split: if_splits)

lemma process_check_result_fields:
  "up (db (snd (process_check_result k raises m ci))) = up (db m)"
  "check_records (db (snd (process_check_result k raises m ci))) = check_records (db m)"
  "processed (snd (process_check_result k raises m ci)) = processed m @ [ci]"
  by (auto simp: process_check_result_def Let_def update_status_fields
      dest: add_site_fields split: option.splits)

lemma process_check_result_other_site:
  "v \<noteq> rd_url ci \<Longrightarrow>
   get_site (db (snd (process_check_result k raises m ci))) v = get_site (db m) v"
  by (auto simp: process_check_result_def Let_def update_status_other_site
      dest: get_site_add_site_other split: option.splits)

lemma process_all_fields:
  "check_records (db (snd (process_all k raises m datas))) = check_records (db m)
   \<and> processed (snd (process_all k raises m datas)) = processed m @ datas"
proof (induction datas arbitrary: m)
  case Nil
  then show ?case by simp
next
  case (Cons x xs)
  show ?case
    using Cons.IH [of "snd (process_check_result k raises m x)"]
    by (simp only: snd_process_all_Cons process_check_result_fields) simp
qed

lemma process_all_other_site:
  "v \<notin> rd_url ` set datas \<Longrightarrow>
   get_site (db (snd (process_all k raises m datas))) v = get_site (db m) v"
proof (induction datas arbitrary: m)
  case Nil
  then show ?case by simp
next
  case (Cons x xs)
  show ?case
    using Cons.IH [of "snd (process_check_result k raises m x)"] Cons.prems
    by (simp add: snd_process_all_Cons process_check_result_other_site del: process_all.simps)
qed

text \<open>
  C8. A batch on a store that answers. The check records that the batch adds are those of
  the results that were not dropped, in the order of the URLs, and these same results, and
  no other, are handed to the status machine. The URLs of these results are the URLs of
  the batch whose request returned a result; for a URL whose request was dropped the site
  in the store is as before.
\<close>

theorem dropped_results_leave_no_trace:
  assumes "up (db m)"
  shows "let request = make_request rfs client now;
             kept = [data. Some data \<leftarrow> map request urls];
             m' = snd (run_task k raises request m urls)
         in check_records (db m') = check_records (db m) @ map prepare_for_database kept
          \<and> processed m' = processed m @ kept
          \<and> rd_url ` set kept = {u \<in> set urls. request u \<noteq> None}
          \<and> (\<forall>u. request u = None \<longrightarrow> get_site (db m') u = get_site (db m) u)"
proof -
  let ?request = "make_request rfs client now"
  let ?kept = "[data. Some data \<leftarrow> map ?request urls]"
  let ?d = "(db m)\<lparr>check_records := check_records (db m) @ map prepare_for_database ?kept\<rparr>"
  have run: "run_task k raises ?request m urls = process_all k raises (m\<lparr>db := ?d\<rparr>) ?kept"
    using assms by (simp add: run_task_def Let_def somes_pop_nones fold_add_check_record)
  have urls: "rd_url ` set ?kept = {u \<in> set urls. ?request u \<noteq> None}"
    by (rule rd_url_somes)
  have recs: "check_records (db (snd (run_task k raises ?request m urls)))
                = check_records (db m) @ map prepare_for_database ?kept"
    by (simp add: run process_all_fields)
  have proc: "processed (snd (run_task k raises ?request m urls)) = processed m @ ?kept"
    by (simp add: run process_all_fields)
  have site: "get_site (db (snd (run_task k raises ?request m urls))) u = get_site (db m) u"
    if "?request u = None" for u
  proof -
    from that urls have "u \<notin> rd_url ` set ?kept" by simp
    then have "get_site (db (snd (run_task k raises ?request m urls))) u
                 = get_site (db (m\<lparr>db := ?d\<rparr>)) u"
      unfolding run by (rule process_all_other_site)
    then show ?thesis by (simp add: get_site_def)
  qed
  from urls recs proc site show ?thesis
    by (simp add: Let_def)
qed

theorem dropped_results_witness:
  "up (db (manager_a AVAILABLE 0 []))
   \<and> make_request raise_from_400 half_down 9 ''a'' = None
   \<and> check_records (db (snd (run_task 3 never_raises
        (make_request raise_from_400 half_down 9) (manager_a AVAILABLE 0 []) [''a'', ''b''])))
      = [\<lparr>ck_url = ''b'', ck_status = OK, ck_timestamp = 9, ck_code = Some 200,
          ck_response_time = Some (1 / 2)\<rparr>]
   \<and> processed (snd (run_task 3 never_raises
        (make_request raise_from_400 half_down 9) (manager_a AVAILABLE 0 []) [''a'', ''b'']))
      = [\<lparr>rd_url = ''b'', rd_status = OK, rd_timestamp = 9, rd_code = Some 200,
          rd_response_time = Some (1 / 2)\<rparr>]
   \<and> get_site (db (snd (run_task 3 never_raises
        (make_request raise_from_400 half_down 9) (manager_a AVAILABLE 0 []) [''a'', ''b''])))
        ''a''
      = Some \<lparr>site_url = ''a'', site_status = AVAILABLE, consecutive_failures = 0\<rparr>"
  using dropped_results_leave_no_trace
    [of "manager_a AVAILABLE 0 []" raise_from_400 half_down 9 "[''a'', ''b'']" 3 never_raises]
  by (simp add: Let_def manager_a_def store_a_def make_request_def half_down_def
      raise_from_400_def prepare_for_database_def get_site_def)

section \<open>The incidents of a history\<close>

text \<open>The loop over successful checks while no incident is open, and over failed checks.\<close>

lemma scan_step_ok_idle:
  assumes "0 < k" "current_incident st = None" "failures_counter st = 0" "is_check_successful c"
  shows "scan_step k st c = Inr st"
  using assms by (cases st) (simp add: scan_step_def Let_def)

lemma scan_loop_skip_ok:
  assumes "0 < k" "current_incident st = None" "failures_counter st = 0"
    and "\<forall>c \<in> set oks. is_check_successful c"
  shows "scan_loop k st (oks @ rest) = scan_loop k st rest"
  using assms(4) by (induction oks) (simp_all add: scan_step_ok_idle [OF assms(1-3)])

lemma scan_loop_dropWhile_ok:
  assumes "0 < k" "current_incident st = None" "failures_counter st = 0"
  shows "scan_loop k st cs = scan_loop k st (dropWhile is_check_successful cs)"
proof -
  have "scan_loop k st (takeWhile is_check_successful cs @ dropWhile is_check_successful cs)
          = scan_loop k st (dropWhile is_check_successful cs)"
    by (rule scan_loop_skip_ok [OF assms]) (auto dest: set_takeWhileD)
  then show ?thesis by simp
qed

lemma scan_step_fail_open:
  assumes "current_incident st = Some inc" "failures_counter st > 0" "\<not> is_check_successful c"
  shows "scan_step k st c = Inr (st\<lparr>failures_counter := failures_counter st + 1\<rparr>)"
  using assms by (cases st) (simp add: scan_step_def Let_def)

lemma scan_loop_fail_open:
  assumes "current_incident st = Some inc" "failures_counter st > 0"
    and "\<forall>c \<in> set fs. \<not> is_check_successful c"
  shows "scan_loop k st (fs @ rest)
           = scan_loop k (st\<lparr>failures_counter := failures_counter st + int (length fs)\<rparr>) rest"
  using assms
proof (induction fs arbitrary: st)
  case Nil
  then show ?case by simp
next
  case (Cons c fs)
  let ?st1 = "st\<lparr>failures_counter := failures_counter st + 1\<rparr>"
  have step: "scan_step k st c = Inr ?st1"
    using Cons.prems by (intro scan_step_fail_open) auto
  have "scan_loop k ?st1 (fs @ rest)
          = scan_loop k (?st1\<lparr>failures_counter := failures_counter ?st1 + int (length fs)\<rparr>) rest"
    using Cons.prems by (intro Cons.IH) auto
  then show ?case
    by (simp add: step add.assoc)
qed

lemma scan_step_fail_closed:
  assumes "current_incident st = None" "\<not> is_check_successful c"
  shows "scan_step k st c =
     Inr (st\<lparr>incident_start :=
               (if failures_counter st = 0 then Some (ck_timestamp c) else incident_start st),
             failures_counter := failures_counter st + 1,
             current_incident :=
               (if failures_counter st + 1 \<ge> k
                then Some \<lparr>start_time =
                             (if failures_counter st = 0 then Some (ck_timestamp c)
                              else incident_start st),
                           end_time = None, duration = 0, reason = get_failure_reason c\<rparr>
                else None)\<rparr>)"
  using assms by (cases st) (simp add: scan_step_def Let_def)

lemma scan_loop_fail_closed:
  assumes "current_incident st = None" "0 \<le> failures_counter st" "failures_counter st < k"
    and "\<forall>c \<in> set fs. \<not> is_check_successful c" and "fs \<noteq> []"
  shows "scan_loop k st (fs @ rest)
           = scan_loop k
               (st\<lparr>incident_start :=
                      (if failures_counter st = 0 then Some (ck_timestamp (hd fs))
                       else incident_start st),
                    failures_counter := failures_counter st + int (length fs),
                    current_incident :=
                      (if failures_counter st + int (length fs) \<ge> k
                       then Some \<lparr>start_time =
                                    (if failures_counter st = 0 then Some (ck_timestamp (hd fs))
                                     else incident_start st),
                                  end_time = None, duration = 0,
                                  reason = get_failure_reason
                                             (fs ! nat (k - failures_counter st - 1))\<rparr>
                       else None)\<rparr>)
               rest"
  using assms
proof (induction fs arbitrary: st)
  case Nil
  then show ?case by simp
next
  case (Cons c fs)
  let ?n = "failures_counter st"
  let ?s1 = "if ?n = 0 then Some (ck_timestamp c) else incident_start st"
  let ?st1 = "st\<lparr>incident_start := ?s1, failures_counter := ?n + 1,
                 current_incident :=
                   (if ?n + 1 \<ge> k
                    then Some \<lparr>start_time = ?s1, end_time = None, duration = 0,
                               reason = get_failure_reason c\<rparr>
                    else None)\<rparr>"
  have nok: "\<not> is_check_successful c" and noks: "\<forall>c \<in> set fs. \<not> is_check_successful c"
    using Cons.prems by auto
  have step: "scan_step k st c = Inr ?st1"
    using Cons.prems(1) nok by (rule scan_step_fail_closed)
  have first: "scan_loop k st ((c # fs) @ rest) = scan_loop k ?st1 (fs @ rest)"
    by (simp add: step)
  show ?case (is "?L = scan_loop k ?T rest")
  proof (cases "?n + 1 \<ge> k")
    case True
    have run: "scan_loop k ?st1 (fs @ rest)
            = scan_loop k (?st1\<lparr>failures_counter := failures_counter ?st1 + int (length fs)\<rparr>) rest"
      using True Cons.prems noks by (intro scan_loop_fail_open) auto
    have "nat (k - ?n - 1) = 0"
      using True by simp
    then have target: "?T = ?st1\<lparr>failures_counter := failures_counter ?st1 + int (length fs)\<rparr>"
      using True by (simp add: add.assoc)
    show ?thesis
      unfolding first run target by (rule refl)
  next
    case False
    show ?thesis
    proof (cases "fs = []")
      case True
      have target: "?T = ?st1"
        using False True by simp
      have run: "scan_loop k ?st1 (fs @ rest) = scan_loop k ?st1 rest"
        using True by simp
      show ?thesis
        unfolding first run target by (rule refl)
    next
      case nonempty: False
      let ?T1 = "?st1\<lparr>incident_start :=
                      (if failures_counter ?st1 = 0 then Some (ck_timestamp (hd fs))
                       else incident_start ?st1),
                    failures_counter := failures_counter ?st1 + int (length fs),
                    current_incident :=
                      (if failures_counter ?st1 + int (length fs) \<ge> k
                       then Some \<lparr>start_time =
                                    (if failures_counter ?st1 = 0 then Some (ck_timestamp (hd fs))
                                     else incident_start ?st1),
                                  end_time = None, duration = 0,
                                  reason = get_failure_reason
                                             (fs ! nat (k - failures_counter ?st1 - 1))\<rparr>
                       else None)\<rparr>"
      have ih: "scan_loop k ?st1 (fs @ rest) = scan_loop k ?T1 rest"
        using False Cons.prems noks nonempty by (intro Cons.IH) auto
      have idx: "(c # fs) ! nat (k - ?n - 1) = fs ! nat (k - (?n + 1) - 1)"
      proof -
        from False have "k - ?n - 1 > 0" by simp
        then have "nat (k - ?n - 1) = Suc (nat (k - (?n + 1) - 1))" by simp
        then show ?thesis by simp
      qed
      have pos: "?n + 1 \<noteq> 0" using Cons.prems by simp
      have target: "?T = ?T1"
        using False pos by (simp add: idx add.assoc)
      show ?thesis
        unfolding first ih target by (rule refl)
    qed
  qed
qed

text \<open>The loop and the statements after it compute the incidents of the specification.\<close>

lemma scan_refines:
  "0 < k \<Longrightarrow> current_incident st = None \<Longrightarrow> failures_counter st = 0 \<Longrightarrow>
   (cs \<noteq> [] \<longrightarrow> whole \<noteq> [] \<and> last whole = last cs) \<Longrightarrow>
   (case scan_loop k st cs of Inl e \<Rightarrow> Inl e | Inr st' \<Rightarrow> after_loop whole st')
     = Inr (incidents st @ spec_incidents k cs)"
proof (induction k cs arbitrary: st rule: spec_incidents.induct)
  case (1 k cs)
  note pos = \<open>0 < k\<close> and idle = \<open>current_incident st = None\<close> \<open>failures_counter st = 0\<close>
  have skip: "scan_loop k st cs = scan_loop k st (dropWhile is_check_successful cs)"
    using pos idle by (rule scan_loop_dropWhile_ok)
  show ?case
  proof (cases "dropWhile is_check_successful cs")
    case Nil
    have "spec_incidents k cs = []"
      by (subst spec_incidents.simps, subst Nil) simp
    then show ?thesis
      using idle by (simp add: skip after_loop_def, subst Nil, simp add: after_loop_def)
  next
    case outer: (Cons f fs)
    define run where "run = f # takeWhile (\<lambda>c. \<not> is_check_successful c) fs"
    define after where "after = dropWhile (\<lambda>c. \<not> is_check_successful c) fs"
    define finish where
      "finish = (case after of [] \<Rightarrow> ck_timestamp (last run) | c # _ \<Rightarrow> ck_timestamp c)"
    define inc where
      "inc = \<lparr>start_time = Some (ck_timestamp f), end_time = None, duration = 0,
              reason = get_failure_reason (run ! nat (k - 1))\<rparr>"
    define st_run where
      "st_run = st\<lparr>incident_start := Some (ck_timestamp f),
                   failures_counter := int (length run),
                   current_incident := (if int (length run) \<ge> k then Some inc else None)\<rparr>"
    have nok_f: "\<not> is_check_successful f"
      using hd_dropWhile [of is_check_successful cs] outer by simp
    have noks: "\<forall>c \<in> set run. \<not> is_check_successful c"
      using nok_f by (auto simp: run_def dest: set_takeWhileD)
    have rest: "dropWhile is_check_successful cs = run @ after"
      by (simp add: outer run_def after_def)
    have spec: "spec_incidents k cs =
        (if int (length run) \<ge> k
         then [inc\<lparr>end_time := Some finish, duration := finish - ck_timestamp f\<rparr>] else [])
        @ spec_incidents k after"
      using pos
      by (subst spec_incidents.simps, subst outer)
         (simp add: Let_def run_def after_def finish_def inc_def nat_diff_distrib
            cong: list.case_cong)
    have "scan_loop k st (run @ after) = scan_loop k st_run after"
      unfolding st_run_def inc_def
      using scan_loop_fail_closed [of st k run after] idle pos noks
      by (simp add: run_def)
    then have to_run: "scan_loop k st cs = scan_loop k st_run after"
      by (simp add: skip rest)
    have last_cs: "cs \<noteq> [] \<and> last cs = last (dropWhile is_check_successful cs)"
    proof -
      have "cs \<noteq> []" using outer by auto
      moreover have "last cs = last (dropWhile is_check_successful cs)"
        using outer by (metis last_appendR list.distinct(1) takeWhile_dropWhile_id)
      ultimately show ?thesis ..
    qed
    show ?thesis
    proof (cases after)
      case Nil
      have last_run: "whole \<noteq> [] \<and> last whole = last run"
      proof -
        from last_cs "1.prems"(4) show ?thesis
          by (simp add: rest Nil)
      qed
      have "spec_incidents k [] = []"
        by (subst spec_incidents.simps) simp
      then show ?thesis
        using last_run
        by (simp add: to_run Nil spec after_loop_def st_run_def close_incident_def inc_def
            finish_def)
    next
      case (Cons c cs')
      define closed where
        "closed = (if int (length run) \<ge> k
                   then [inc\<lparr>end_time := Some (ck_timestamp c),
                              duration := ck_timestamp c - ck_timestamp f\<rparr>]
                   else [])"
      define st2 where
        "st2 = st_run\<lparr>failures_counter := 0, incidents := incidents st @ closed,
                        current_incident := None\<rparr>"
      have ok_c: "is_check_successful c"
      proof -
        have "dropWhile (\<lambda>c. \<not> is_check_successful c) fs = c # cs'"
          using Cons by (simp only: after_def)
        then show ?thesis
          by (auto simp: dropWhile_eq_Cons_conv)
      qed
      have step: "scan_step k st_run c = Inr st2"
        using pos ok_c
        by (simp add: scan_step_def Let_def st_run_def st2_def closed_def close_incident_def
            inc_def)
      have idle2: "current_incident st2 = None" "failures_counter st2 = 0"
        by (simp_all add: st2_def)
      have again: "scan_step k st2 c = Inr st2"
        using pos idle2 ok_c by (rule scan_step_ok_idle)
      have "scan_loop k st_run after = scan_loop k st2 after"
        by (simp add: Cons step again)
      then have to_after: "scan_loop k st cs = scan_loop k st2 after"
        by (simp add: to_run)
      have last_after: "after \<noteq> [] \<longrightarrow> whole \<noteq> [] \<and> last whole = last after"
        using last_cs "1.prems"(4) by (simp add: rest Cons)
      have "(case scan_loop k st2 after of Inl e \<Rightarrow> Inl e | Inr st' \<Rightarrow> after_loop whole st')
              = Inr (incidents st2 @ spec_incidents k after)"
        using outer run_def after_def finish_def pos idle2 last_after by (rule "1.IH")
      moreover have "finish = ck_timestamp c"
        by (simp add: finish_def Cons)
      ultimately show ?thesis
        by (simp add: to_after spec st2_def closed_def)
    qed
  qed
qed

lemma find_incidents_refines:
  assumes "0 < k"
  shows "find_incidents k checks = Inr (spec_incidents k (sort_key ck_timestamp checks))"
proof -
  have "(case scan_loop k Scan_init (sort_key ck_timestamp checks) of
           Inl e \<Rightarrow> Inl e
         | Inr st' \<Rightarrow> after_loop (sort_key ck_timestamp checks) st')
          = Inr (incidents Scan_init @ spec_incidents k (sort_key ck_timestamp checks))"
    using assms by (intro scan_refines) (simp_all add: Scan_init_def)
  then show ?thesis
    by (simp add: find_incidents_def Let_def Scan_init_def)
qed

lemma spec_incidents_Nil: "spec_incidents k [] = []"
  by (subst spec_incidents.simps) simp

lemma spec_incidents_example:
  assumes "s1 \<noteq> OK" "s2 \<noteq> OK" "s3 \<noteq> OK"
  shows "spec_incidents 3 [check_at OK t0, check_at s1 t1, check_at s2 t2, check_at s3 t3,
                           check_at OK t4]
     = [\<lparr>start_time = Some t1, end_time = Some t4, duration = t4 - t1,
         reason = get_failure_reason (check_at s3 t3)\<rparr>]"
proof -
  have ok: "is_check_successful (check_at OK t)" for t
    by (simp add: is_check_successful_def check_at_def)
  have nok: "\<not> is_check_successful (check_at s t)" if "s \<noteq> OK" for s t
    using that by (simp add: is_check_successful_def check_at_def)
  have ts: "ck_timestamp (check_at s t) = t" for s t
    by (simp add: check_at_def)
  have tail: "spec_incidents 3 [check_at OK t4] = []"
    by (subst spec_incidents.simps) (simp add: ok)
  show ?thesis
    by (subst spec_incidents.simps) (simp add: ok nok assms ts tail Let_def)
qed

text \<open>
  C5. For a positive threshold \<open>k\<close> the incidents that \<^verbatim>\<open>_find_incidents\<close> returns for a
  history are those of the specification for the history in the order of time: one
  incident for every maximal run of at least \<open>k\<close> failed checks, opened by the failure that
  brings the run to \<open>k\<close>, starting at the time of the first failure of the run, ending at
  the time of the next successful check, or at the time of the last check when none
  follows. With the threshold 3 the checks t0 (OK), t1, t2, t3 (failed), t4 (OK) give the
  one incident from t1 to t4 with the duration t4 - t1.
\<close>

theorem incidents_follow_failure_runs:
  "(0 < k \<longrightarrow>
      find_incidents k checks = Inr (spec_incidents k (sort_key ck_timestamp checks)))
   \<and> (t0 \<le> t1 \<and> t1 \<le> t2 \<and> t2 \<le> t3 \<and> t3 \<le> t4 \<and> s1 \<noteq> OK \<and> s2 \<noteq> OK \<and> s3 \<noteq> OK \<longrightarrow>
      find_incidents 3 [check_at OK t0, check_at s1 t1, check_at s2 t2, check_at s3 t3,
                        check_at OK t4]
        = Inr [\<lparr>start_time = Some t1, end_time = Some t4, duration = t4 - t1,
                reason = get_failure_reason (check_at s3 t3)\<rparr>])"
proof (intro conjI impI)
  assume "0 < k"
  then show "find_incidents k checks = Inr (spec_incidents k (sort_key ck_timestamp checks))"
    by (rule find_incidents_refines)
next
  assume a: "t0 \<le> t1 \<and> t1 \<le> t2 \<and> t2 \<le> t3 \<and> t3 \<le> t4 \<and> s1 \<noteq> OK \<and> s2 \<noteq> OK \<and> s3 \<noteq> OK"
  let ?cs = "[check_at OK t0, check_at s1 t1, check_at s2 t2, check_at s3 t3, check_at OK t4]"
  have "sorted (map ck_timestamp ?cs)"
    using a by (simp add: check_at_def)
  then have "sort_key ck_timestamp ?cs = ?cs"
    by (rule sort_key_id_if_sorted)
  moreover have "find_incidents 3 ?cs = Inr (spec_incidents 3 (sort_key ck_timestamp ?cs))"
    by (rule find_incidents_refines) simp
  ultimately show "find_incidents 3 ?cs
        = Inr [\<lparr>start_time = Some t1, end_time = Some t4, duration = t4 - t1,
                reason = get_failure_reason (check_at s3 t3)\<rparr>]"
    using a by (simp add: spec_incidents_example)
qed

theorem incidents_witness:
  "find_incidents 3 [check_at OK 10, check_at TIMEOUT 20, check_at DNS_ERROR 30,
                     check_at TIMEOUT 40, check_at OK 50]
     = Inr [\<lparr>start_time = Some 20, end_time = Some 50, duration = 30, reason = ''Timeout''\<rparr>]"
proof -
  have "find_incidents 3 [check_at OK 10, check_at TIMEOUT 20, check_at DNS_ERROR 30,
                          check_at TIMEOUT 40, check_at OK 50]
          = Inr [\<lparr>start_time = Some 20, end_time = Some 50, duration = 50 - 20,
                  reason = get_failure_reason (check_at TIMEOUT 40)\<rparr>]"
    using incidents_follow_failure_runs
      [where k = 3 and checks = "[]" and ?t0.0 = 10 and ?t1.0 = 20 and ?t2.0 = 30
         and ?t3.0 = 40 and ?t4.0 = 50 and ?s1.0 = TIMEOUT and ?s2.0 = DNS_ERROR
         and ?s3.0 = TIMEOUT]
    by simp
  then show ?thesis
    by (simp add: get_failure_reason_def check_at_def)
qed

section \<open>The uptime statistics\<close>






lemma py_round2_70: "py_round2 (7 / 10 * 100) = 70"
  by (simp add: py_round2_def Let_def)







end
